theory Spec2Isabelle
  imports Main "HOL-Library.Sublist"
begin

section \<open>The blog tree admin view (component \<open>BlogAdmin\<close>)\<close>

text \<open>
  The component keeps five pieces of React state (\<open>searchQuery\<close>, \<open>blogs\<close>,
  \<open>expandedBlogIds\<close>, \<open>subblogs\<close>, \<open>loading\<close>) and talks to the backend through
  \<open>api.get\<close> and \<open>api.delete\<close>. The handlers are \<open>async\<close> functions: each one is
  cut here at its \<open>await\<close>s into the part that runs up to the request and the part
  that runs when the request settles, and the response is an input of the second part.
  The state setters the parts use are the functional ones, \<open>setX(prev => ...)\<close>, or
  overwrite the value, so they act on the state as it is when the part runs. The one
  place where a handler reads a state constant of the render that built it is the guard
  \<open>if (loading[parentId]) return\<close> of \<open>fetchSubblogs\<close>: that constant is an argument of
  the handler here. The updater that \<open>toggleExpand\<close> hands to \<open>setExpandedBlogIds\<close> is
  run once, when the handler is called.
  Beside the React state the record carries what the component does to the outside: the
  requests it has issued, its \<open>console.error\<close> lines, its \<open>alert\<close>s, and the requests that
  have not settled yet.
\<close>

subsection \<open>Data\<close>

text \<open>
  A JavaScript string is a sequence of UTF-16 code units. The code units are numbers
  here (the component only compares them and hands them to \<open>toLowerCase\<close>); \<open>utf16\<close>
  gives the code units of a string literal of ASCII characters, one per character.
\<close>

type_synonym js_string = "nat list"

definition utf16 :: "string \<Rightarrow> js_string" where
  "utf16 str = map of_char str"

record timestamp =
  seconds :: int
  nanoseconds :: int

record BlogData =
  blogID :: int
  blogName :: js_string
  createdAt :: timestamp
  featured :: "bool option"
  parentId :: "int option"

text \<open>\<open>api.get('/blog', {params: {id}})\<close> and \<open>api.delete('/blog', {data: {blogIds}})\<close>.\<close>

datatype request = Get_blog int | Delete_blog "int list"

text \<open>A settled promise: resolved with the payload, or rejected with an error.\<close>

datatype 'a response = Resolved 'a | Rejected string

text \<open>
  What waits for a request to settle: \<open>fetchSubblogs parentId\<close> at its \<open>await api.get\<close>,
  \<open>handleDelete\<close> at its \<open>await api.delete\<close>, and \<open>fetchBlogs\<close> at its \<open>await api.get\<close>
  (with \<open>True\<close> when \<open>handleDelete\<close> awaits that call, \<open>False\<close> when the mount effect
  started it).
\<close>

datatype continuation = Await_subblogs int | Await_delete | Await_blogs bool

record BlogAdmin =
  searchQuery :: js_string
  blogs :: "BlogData list"
  expandedBlogIds :: "int set"
  subblogs :: "int \<rightharpoonup> BlogData list"
  loading :: "int \<rightharpoonup> bool"
  requests :: "request list"
  console_error :: "(string \<times> string) list"
  alerts :: "string list"
  pending :: "continuation list"

text \<open>The \<open>useState\<close> initial values; nothing has been issued or logged.\<close>

definition initial :: BlogAdmin where
  "initial = \<lparr> searchQuery = [], blogs = [], expandedBlogIds = {}, subblogs = Map.empty,
     loading = Map.empty, requests = [], console_error = [], alerts = [], pending = [] \<rparr>"

text \<open>Issuing a request: it is sent, and its caller is suspended until it settles.\<close>

definition api_call :: "request \<Rightarrow> continuation \<Rightarrow> BlogAdmin \<Rightarrow> BlogAdmin" where
  "api_call r k s = s\<lparr> requests := requests s @ [r], pending := pending s @ [k] \<rparr>"

definition settled :: "continuation \<Rightarrow> BlogAdmin \<Rightarrow> BlogAdmin" where
  "settled k s = s\<lparr> pending := remove1 k (pending s) \<rparr>"

subsection \<open>\<open>fetchBlogs\<close>\<close>

definition fetchBlogs_call :: "bool \<Rightarrow> BlogAdmin \<Rightarrow> BlogAdmin" where
  "fetchBlogs_call from_delete s = api_call (Get_blog (- 1)) (Await_blogs from_delete) s"

definition fetchBlogs_resume :: "bool \<Rightarrow> BlogData list response \<Rightarrow> BlogAdmin \<Rightarrow> BlogAdmin" where
  "fetchBlogs_resume from_delete r s =
     (let s1 = settled (Await_blogs from_delete) s in
      case r of
        Resolved bs \<Rightarrow> s1\<lparr> blogs := bs \<rparr>
      | Rejected e \<Rightarrow> s1\<lparr> console_error := console_error s1 @ [(''Error fetching blogs:'', e)] \<rparr>)"

text \<open>The state after the first render and its effect \<open>useEffect(() => fetchBlogs(), [])\<close>.\<close>

definition mounted :: BlogAdmin where
  "mounted = fetchBlogs_call False initial"

subsection \<open>\<open>fetchSubblogs\<close>\<close>

text \<open>
  \<open>captured\<close> is the constant \<open>loading\<close> of the render that built the handler: the guard
  \<open>if (loading[parentId]) return\<close> reads it, not the state, while the updater of
  \<open>setLoading\<close> works on the state. \<open>loading[parentId]\<close> is \<open>undefined\<close> (falsy) for an id
  that was never fetched, so the guard fires exactly on \<open>Some True\<close>.
\<close>

definition fetchSubblogs_call :: "(int \<rightharpoonup> bool) \<Rightarrow> int \<Rightarrow> BlogAdmin \<Rightarrow> BlogAdmin" where
  "fetchSubblogs_call captured parent s =
     (if captured parent = Some True then s
      else api_call (Get_blog parent) (Await_subblogs parent)
             (s\<lparr> loading := (loading s)(parent \<mapsto> True) \<rparr>))"

definition fetchSubblogs_resume :: "int \<Rightarrow> BlogData list response \<Rightarrow> BlogAdmin \<Rightarrow> BlogAdmin" where
  "fetchSubblogs_resume parent r s =
     (let s1 = settled (Await_subblogs parent) s;
          s2 = (case r of
                  Resolved bs \<Rightarrow>
                    s1\<lparr> subblogs := (subblogs s1)
                          (parent \<mapsto> map (\<lambda>blog. blog\<lparr> parentId := Some parent \<rparr>) bs) \<rparr>
                | Rejected e \<Rightarrow>
                    s1\<lparr> console_error := console_error s1 @ [(''Error fetching subblogs:'', e)] \<rparr>)
      in s2\<lparr> loading := (loading s2)(parent \<mapsto> False) \<rparr>)"

subsection \<open>\<open>toggleExpand\<close>\<close>

text \<open>
  The handler as a render builds it: it calls the \<open>fetchSubblogs\<close> of the same render, so
  \<open>captured\<close> is that render's \<open>loading\<close>; the set of expanded ids is the updater's
  \<open>prev\<close>, the state.
\<close>

definition toggleExpand_of :: "(int \<rightharpoonup> bool) \<Rightarrow> BlogData \<Rightarrow> BlogAdmin \<Rightarrow> BlogAdmin" where
  "toggleExpand_of captured blog s =
     (let parent = blogID blog in
      if parent \<in> expandedBlogIds s
      then s\<lparr> expandedBlogIds := expandedBlogIds s - {parent} \<rparr>
      else fetchSubblogs_call captured parent
             (s\<lparr> expandedBlogIds := insert parent (expandedBlogIds s) \<rparr>))"

text \<open>
  The handler of the render that shows the state \<open>s\<close> itself: the component has
  re-rendered since the state last changed, and \<open>loading\<close> is the state's.
\<close>

definition toggleExpand :: "BlogData \<Rightarrow> BlogAdmin \<Rightarrow> BlogAdmin" where
  "toggleExpand blog s = toggleExpand_of (loading s) blog s"

subsection \<open>\<open>handleDelete\<close>\<close>

text \<open>\<open>ok\<close> is the answer of \<open>window.confirm\<close>.\<close>

definition handleDelete_call :: "int \<Rightarrow> bool \<Rightarrow> BlogAdmin \<Rightarrow> BlogAdmin" where
  "handleDelete_call i ok s = (if ok then api_call (Delete_blog [i]) Await_delete s else s)"

text \<open>
  When \<open>api.delete\<close> settles: on success the handler goes on to \<open>await fetchBlogs()\<close>, on
  failure it falls into its \<open>catch\<close>.
\<close>

definition handleDelete_deleted :: "unit response \<Rightarrow> BlogAdmin \<Rightarrow> BlogAdmin" where
  "handleDelete_deleted r s =
     (let s1 = settled Await_delete s in
      case r of
        Resolved u \<Rightarrow> fetchBlogs_call True s1
      | Rejected e \<Rightarrow>
          s1\<lparr> console_error := console_error s1 @ [(''Error deleting blog:'', e)],
              alerts := alerts s1 @ [''Failed to delete blog''] \<rparr>)"

text \<open>
  After \<open>await fetchBlogs()\<close>; \<open>fetchBlogs\<close> catches its own failure, so this part runs
  whether the list came back or not.
\<close>

definition handleDelete_refetched :: "BlogAdmin \<Rightarrow> BlogAdmin" where
  "handleDelete_refetched s = s\<lparr> subblogs := Map.empty, expandedBlogIds := {} \<rparr>"

text \<open>
  The handler run from its call to its end with nothing else in between: the answer of
  the dialog, the outcome of the delete request and the outcome of the list request
  are its inputs.
\<close>

definition handleDelete ::
    "int \<Rightarrow> bool \<Rightarrow> unit response \<Rightarrow> BlogData list response \<Rightarrow> BlogAdmin \<Rightarrow> BlogAdmin" where
  "handleDelete i ok del_r list_r s =
     (if ok then
        (case del_r of
           Resolved u \<Rightarrow>
             handleDelete_refetched
               (fetchBlogs_resume True list_r (handleDelete_deleted del_r (handleDelete_call i ok s)))
         | Rejected e \<Rightarrow> handleDelete_deleted del_r (handleDelete_call i ok s))
      else handleDelete_call i ok s)"

subsection \<open>The search filter\<close>

text \<open>
  \<open>str.includes(q)\<close> holds when \<open>q\<close> starts at some position of \<open>str\<close>, code unit
  by code unit.
\<close>

fun js_includes :: "js_string \<Rightarrow> js_string \<Rightarrow> bool" where
  "js_includes [] q = (q = [])"
| "js_includes (c # cs) q = (prefix q (c # cs) \<or> js_includes cs q)"



text \<open>
  What the engine's \<open>toLowerCase\<close> does to a string of ASCII code units (below 128):
  \<open>A\<close>..\<open>Z\<close> (65..90) go to \<open>a\<close>..\<open>z\<close> (97..122), every other code unit stays.
\<close>

definition ascii :: "js_string \<Rightarrow> bool" where
  "ascii str = list_all (\<lambda>c. c < 128) str"






subsection \<open>The row renderer \<open>BlogRow\<close>\<close>

datatype icon = Spinner | ChevronDown | ChevronRight

text \<open>
  One table row \<open><tr>\<close>: the left padding in pixels, the icon and the \<open>disabled\<close>
  attribute of the expand button, the title, the creation time (the source prints it
  with \<open>toLocaleDateString\<close>, which is left out), the featured mark, and the blog the
  row's buttons act on.
\<close>

record row =
  row_padding :: nat
  row_icon :: icon
  row_disabled :: bool
  row_title :: js_string
  row_created :: timestamp
  row_featured :: bool
  row_blog :: BlogData

definition isExpanded :: "BlogAdmin \<Rightarrow> BlogData \<Rightarrow> bool" where
  "isExpanded s blog = (blogID blog \<in> expandedBlogIds s)"

text \<open>\<open>subblogs[blog.blogID]?.length > 0\<close>: \<open>undefined > 0\<close> is false.\<close>

definition hasSubblogs :: "BlogAdmin \<Rightarrow> BlogData \<Rightarrow> bool" where
  "hasSubblogs s blog =
     (case subblogs s (blogID blog) of None \<Rightarrow> False | Some cs \<Rightarrow> 0 < length cs)"

definition tr :: "BlogAdmin \<Rightarrow> BlogData \<Rightarrow> nat \<Rightarrow> row" where
  "tr s blog level =
     \<lparr> row_padding = level * 24,
       row_icon = (if loading s (blogID blog) = Some True then Spinner
                   else if isExpanded s blog then ChevronDown else ChevronRight),
       row_disabled = (loading s (blogID blog) = Some True),
       row_title = (if blogName blog = [] then utf16 ''Untitled Blog'' else blogName blog),
       row_created = createdAt blog,
       row_featured = (featured blog = Some True),
       row_blog = blog \<rparr>"

text \<open>
  \<open>BlogRow\<close> renders its own row and, when the blog is expanded and has cached children,
  one \<open>BlogRow\<close> per child at \<open>level + 1\<close>. Nothing bounds the recursion (a cache in which
  a blog is its own descendant never stops), so the model counts the nesting depth it may
  still use: \<open>None\<close> says the depth was not enough.
\<close>

fun BlogRow :: "nat \<Rightarrow> BlogAdmin \<Rightarrow> BlogData \<Rightarrow> nat \<Rightarrow> row list option" where
  "BlogRow 0 s blog level = None"
| "BlogRow (Suc n) s blog level =
     (if isExpanded s blog \<and> hasSubblogs s blog then
        (case subblogs s (blogID blog) of
           None \<Rightarrow> Some [tr s blog level]
         | Some cs \<Rightarrow>
             (case those (map (\<lambda>subblog. BlogRow n s subblog (level + 1)) cs) of
                None \<Rightarrow> None
              | Some rss \<Rightarrow> Some (tr s blog level # concat rss)))
      else Some [tr s blog level])"


subsection \<open>The component as a transition system\<close>

text \<open>
  What can happen to the mounted component: the user types in the search box, clicks an
  expand button, clicks a delete button and answers the dialog, or one of the requests
  that have not settled yet settles. A request can only settle while it is pending.
  The expand button of a row is disabled while the loading flag of its blog is true
  (\<open>row_disabled\<close>); the click is allowed here all the same, on any blog, so what holds
  of every run holds with and without that attribute. In these runs the component has
  re-rendered before every click: a click calls the handler of the render that shows
  the current state (\<open>toggleExpand\<close>).
\<close>

datatype event =
    Type_search js_string
  | Click_toggle BlogData
  | Click_delete int bool
  | Settle_subblogs int "BlogData list response"
  | Settle_delete "unit response"
  | Settle_blogs bool "BlogData list response"

fun step :: "event \<Rightarrow> BlogAdmin \<Rightarrow> BlogAdmin option" where
  "step (Type_search q) s = Some (s\<lparr> searchQuery := q \<rparr>)"
| "step (Click_toggle blog) s = Some (toggleExpand blog s)"
| "step (Click_delete i ok) s = Some (handleDelete_call i ok s)"
| "step (Settle_subblogs parent r) s =
     (if Await_subblogs parent \<in> set (pending s)
      then Some (fetchSubblogs_resume parent r s) else None)"
| "step (Settle_delete r) s =
     (if Await_delete \<in> set (pending s) then Some (handleDelete_deleted r s) else None)"
| "step (Settle_blogs from_delete r) s =
     (if Await_blogs from_delete \<in> set (pending s)
      then Some (let s1 = fetchBlogs_resume from_delete r s
                 in if from_delete then handleDelete_refetched s1 else s1)
      else None)"

fun run :: "event list \<Rightarrow> BlogAdmin \<Rightarrow> BlogAdmin option" where
  "run [] s = Some s"
| "run (e # es) s = (case step e s of None \<Rightarrow> None | Some s1 \<Rightarrow> run es s1)"

text \<open>The number of child fetches for an id that have started and not settled.\<close>

definition in_flight :: "BlogAdmin \<Rightarrow> int \<Rightarrow> nat" where
  "in_flight s i = count_list (pending s) (Await_subblogs i)"

subsection \<open>Example data\<close>

definition zine :: BlogData where
  "zine = \<lparr> blogID = 1, blogName = utf16 ''Zine Robotics'',
     createdAt = \<lparr> seconds = 1700000000, nanoseconds = 0 \<rparr>,
     featured = Some True, parentId = None \<rparr>"

definition blog2 :: BlogData where
  "blog2 = \<lparr> blogID = 2, blogName = utf16 ''Blog'',
     createdAt = \<lparr> seconds = 1700000500, nanoseconds = 0 \<rparr>,
     featured = None, parentId = None \<rparr>"

definition workshop :: BlogData where
  "workshop = \<lparr> blogID = 3, blogName = utf16 ''Workshop'',
     createdAt = \<lparr> seconds = 1700001000, nanoseconds = 0 \<rparr>,
     featured = Some False, parentId = None \<rparr>"

text \<open>
  The list has arrived, \<open>zine\<close> has been expanded, and its child fetch has returned
  \<open>workshop\<close>: the children of \<open>zine\<close> are cached.
\<close>

definition listed :: BlogAdmin where
  "listed = fetchBlogs_resume False (Resolved [zine, blog2]) mounted"

definition cached :: BlogAdmin where
  "cached = fetchSubblogs_resume 1 (Resolved [workshop]) (toggleExpand zine listed)"

section \<open>Properties\<close>

subsection \<open>Auxiliary facts\<close>

lemmas handler_defs = api_call_def settled_def fetchBlogs_call_def fetchBlogs_resume_def
  fetchSubblogs_call_def fetchSubblogs_resume_def toggleExpand_of_def toggleExpand_def
  handleDelete_call_def
  handleDelete_deleted_def handleDelete_refetched_def handleDelete_def

lemmas example_defs = initial_def mounted_def listed_def cached_def zine_def blog2_def workshop_def










lemma ascii_append: "ascii (ps @ u @ ss) \<longleftrightarrow> ascii ps \<and> ascii u \<and> ascii ss"
  by (auto simp: ascii_def)



lemma js_includes_examples:
  "js_includes (utf16 ''zine robotics'') (utf16 ''zine'')"
  "\<not> js_includes (utf16 ''blog'') (utf16 ''zine'')"
  "\<not> js_includes (utf16 ''workshop'') (utf16 ''zine'')"
  "utf16 ''Zine Robotics'' \<noteq> []" "utf16 ''Blog'' \<noteq> []" "utf16 ''Workshop'' \<noteq> []"
  by code_simp+


lemma cached_facts:
  "expandedBlogIds cached = {1}" "requests cached = [Get_blog (- 1), Get_blog 1]"
  "loading cached 1 = Some False" "pending cached = []"
  "subblogs cached 1 = Some [workshop\<lparr> parentId := Some 1 \<rparr>]"
  "blogs cached = [zine, blog2]" "blogID zine = 1"
  "alerts cached = []" "console_error cached = []"
  by (simp_all add: example_defs handler_defs Let_def)

lemma run_cached:
  "run [Settle_blogs False (Resolved [zine, blog2]), Click_toggle zine,
        Settle_subblogs 1 (Resolved [workshop])] mounted = Some cached"
  by (simp add: example_defs handler_defs Let_def)

lemma run_append:
  "run (es @ fs) s = (case run es s of None \<Rightarrow> None | Some t \<Rightarrow> run fs t)"
  by (induction es arbitrary: s) (auto split: option.splits)

text \<open>A property of the mounted state that every step keeps holds after every run.\<close>

lemma run_invariant:
  assumes "run evs s = Some t" and "P s"
    and "\<And>e a b. P a \<Longrightarrow> step e a = Some b \<Longrightarrow> P b"
  shows "P t"
  using assms(1,2)
proof (induction evs arbitrary: s)
  case Nil
  then show ?case by simp
next
  case (Cons e es)
  from Cons.prems(1) obtain s1 where s1: "step e s = Some s1" and rest: "run es s1 = Some t"
    by (auto split: option.splits)
  from Cons.prems(2) s1 have "P s1" by (rule assms(3))
  with rest show ?case by (rule Cons.IH)
qed

lemma count_list_remove1:
  "count_list (remove1 x xs) y =
     (if x = y \<and> x \<in> set xs then count_list xs y - 1 else count_list xs y)"
  by (induction xs) auto

text \<open>
  The flag of an id counts the child fetches in flight for it: one while the flag is
  true, none otherwise.
\<close>

lemma step_in_flight:
  assumes inv: "\<forall>i. in_flight a i = (if loading a i = Some True then 1 else 0)"
    and st: "step e a = Some b"
  shows "\<forall>i. in_flight b i = (if loading b i = Some True then 1 else 0)"
proof (cases e)
  case (Settle_subblogs p r)
  with st have mem: "Await_subblogs p \<in> set (pending a)"
    and b: "b = fetchSubblogs_resume p r a"
    by (auto split: if_splits)
  from mem have "0 < in_flight a p"
    using count_list_0_iff [of "pending a" "Await_subblogs p"] by (simp add: in_flight_def)
  with inv have "in_flight a p = 1" by (auto split: if_splits)
  with inv mem show ?thesis
    unfolding b by (cases r) (auto simp: in_flight_def handler_defs count_list_remove1)
next
  case (Click_toggle blog)
  with inv st show ?thesis
    by (auto simp: in_flight_def handler_defs Let_def split: if_splits)
next
  case (Type_search q)
  with inv st show ?thesis by (auto simp: in_flight_def)
next
  case (Click_delete i ok)
  with inv st show ?thesis by (auto simp: in_flight_def handler_defs split: if_splits)
next
  case (Settle_delete r)
  with inv st show ?thesis
    by (cases r) (auto simp: in_flight_def handler_defs count_list_remove1 split: if_splits)
next
  case (Settle_blogs d r)
  with inv st show ?thesis
    by (cases r) (auto simp: in_flight_def handler_defs count_list_remove1 Let_def split: if_splits)
qed

lemma reachable_in_flight:
  assumes "run evs mounted = Some s"
  shows "in_flight s i = (if loading s i = Some True then 1 else 0)"
proof -
  have "\<forall>i. in_flight mounted i = (if loading mounted i = Some True then 1 else 0)"
    by (simp add: in_flight_def mounted_def initial_def handler_defs)
  with assms have "\<forall>i. in_flight s i = (if loading s i = Some True then 1 else 0)"
    by (rule run_invariant) (rule step_in_flight)
  then show ?thesis by simp
qed

lemma step_parent:
  assumes "\<forall>p cs. subblogs a p = Some cs \<longrightarrow> (\<forall>c \<in> set cs. parentId c = Some p)"
    and "step e a = Some b"
  shows "\<forall>p cs. subblogs b p = Some cs \<longrightarrow> (\<forall>c \<in> set cs. parentId c = Some p)"
proof (cases e)
  case (Settle_subblogs q r)
  with assms show ?thesis
    by (cases r) (auto simp: handler_defs split: if_splits)
next
  case (Click_toggle blog)
  with assms show ?thesis by (auto simp: handler_defs Let_def split: if_splits)
next
  case (Type_search q)
  with assms show ?thesis by auto
next
  case (Click_delete i ok)
  with assms show ?thesis by (auto simp: handler_defs split: if_splits)
next
  case (Settle_delete r)
  with assms show ?thesis by (cases r) (auto simp: handler_defs split: if_splits)
next
  case (Settle_blogs d r)
  with assms show ?thesis by (cases r) (auto simp: handler_defs Let_def split: if_splits)
qed

lemma reachable_parent:
  assumes "run evs mounted = Some s"
  shows "\<forall>p cs. subblogs s p = Some cs \<longrightarrow> (\<forall>c \<in> set cs. parentId c = Some p)"
proof -
  have "\<forall>p cs. subblogs mounted p = Some cs \<longrightarrow> (\<forall>c \<in> set cs. parentId c = Some p)"
    by (simp add: mounted_def initial_def handler_defs)
  with assms show ?thesis
    by (rule run_invariant) (rule step_parent)
qed



subsection \<open>Expanding and collapsing\<close>

text \<open>
  Claim C1, as stated: collapsing a node whose children are cached and expanding it
  again issues no new child fetch for its id. \<open>fetchSubblogs\<close> never looks at
  \<open>subblogs\<close>; its only guard is the loading flag. In the run below the list arrives,
  \<open>zine\<close> is expanded and its children arrive and are cached; collapsing and expanding
  \<open>zine\<close> again then sends a second \<open>GET /blog?id=1\<close>.
\<close>

theorem reexpand_refetches_counterexample:
  "run [Settle_blogs False (Resolved [zine, blog2]), Click_toggle zine,
        Settle_subblogs 1 (Resolved [workshop])] mounted = Some cached \<and>
   blogID zine \<in> expandedBlogIds cached \<and>
   subblogs cached (blogID zine) = Some [workshop\<lparr> parentId := Some 1 \<rparr>] \<and>
   requests (toggleExpand zine cached) = requests cached \<and>
   requests (toggleExpand zine (toggleExpand zine cached))
     = requests cached @ [Get_blog (blogID zine)]"
  by (simp add: example_defs handler_defs Let_def)

text \<open>
  Claim C1, amended: for every expanded node, whatever \<open>subblogs\<close> holds for it,
  collapsing it issues no request, and expanding it again issues exactly one new child
  fetch for its id when its loading flag is not true and none when the flag is true;
  \<open>subblogs\<close> and the set of expanded ids end as they started.
\<close>

theorem reexpand_refetches:
  assumes "blogID b \<in> expandedBlogIds s"
  shows "requests (toggleExpand b s) = requests s \<and>
         (loading s (blogID b) \<noteq> Some True \<longrightarrow>
            requests (toggleExpand b (toggleExpand b s)) = requests s @ [Get_blog (blogID b)]) \<and>
         (loading s (blogID b) = Some True \<longrightarrow>
            requests (toggleExpand b (toggleExpand b s)) = requests s) \<and>
         subblogs (toggleExpand b (toggleExpand b s)) = subblogs s \<and>
         expandedBlogIds (toggleExpand b (toggleExpand b s)) = expandedBlogIds s"
  using assms by (auto simp: handler_defs Let_def)

theorem reexpand_refetches_witness:
  "blogID zine \<in> expandedBlogIds cached \<and> loading cached (blogID zine) \<noteq> Some True \<and>
   subblogs cached (blogID zine) = Some [workshop\<lparr> parentId := Some 1 \<rparr>] \<and>
   requests (toggleExpand zine cached) = [Get_blog (- 1), Get_blog 1] \<and>
   requests (toggleExpand zine (toggleExpand zine cached))
     = [Get_blog (- 1), Get_blog 1, Get_blog 1] \<and>
   subblogs (toggleExpand zine (toggleExpand zine cached)) (blogID zine)
     = Some [workshop\<lparr> parentId := Some 1 \<rparr>]"
proof -
  have h1: "blogID zine \<in> expandedBlogIds cached" by (simp add: cached_facts)
  have h2: "loading cached (blogID zine) \<noteq> Some True" by (simp add: cached_facts)
  from reexpand_refetches [OF h1] h1 h2 show ?thesis by (simp add: cached_facts)
qed

text \<open>
  Claim C2: if the node's id is among the expanded ids, \<open>toggleExpand\<close> removes it and
  issues no request; otherwise it adds the id and, when the loading flag of the id is
  not true, issues exactly one request, the child fetch for that id (and none when the
  flag is true).
\<close>

theorem toggle_contract:
  "(blogID b \<in> expandedBlogIds s \<longrightarrow>
      expandedBlogIds (toggleExpand b s) = expandedBlogIds s - {blogID b} \<and>
      requests (toggleExpand b s) = requests s) \<and>
   (blogID b \<notin> expandedBlogIds s \<longrightarrow>
      expandedBlogIds (toggleExpand b s) = insert (blogID b) (expandedBlogIds s) \<and>
      (loading s (blogID b) \<noteq> Some True \<longrightarrow>
         requests (toggleExpand b s) = requests s @ [Get_blog (blogID b)]) \<and>
      (loading s (blogID b) = Some True \<longrightarrow> requests (toggleExpand b s) = requests s))"
  by (simp add: handler_defs Let_def)

theorem toggle_contract_witness:
  "blogID zine \<in> expandedBlogIds cached \<and>
   expandedBlogIds (toggleExpand zine cached) = {} \<and>
   requests (toggleExpand zine cached) = requests cached \<and>
   blogID blog2 \<notin> expandedBlogIds cached \<and> loading cached (blogID blog2) \<noteq> Some True \<and>
   expandedBlogIds (toggleExpand blog2 cached) = {1, 2} \<and>
   requests (toggleExpand blog2 cached) = [Get_blog (- 1), Get_blog 1, Get_blog 2]"
proof -
  have h1: "blogID zine \<in> expandedBlogIds cached" by (simp add: cached_facts)
  have h2: "blogID blog2 \<notin> expandedBlogIds cached \<and> loading cached (blogID blog2) \<noteq> Some True"
    by (simp add: example_defs handler_defs)
  from toggle_contract [of zine cached] toggle_contract [of blog2 cached] h1 h2
  show ?thesis by (auto simp: cached_facts blog2_def)
qed


subsection \<open>Deleting\<close>

text \<open>
  Claim C4: without the user's confirmation \<open>handleDelete\<close> does nothing at all. With
  it and a delete request that succeeds, the handler has issued the delete request and
  then one fetch of the top-level list (\<open>id = -1\<close>), and when it ends the set of expanded
  ids and \<open>subblogs\<close> are both empty, whether the list fetch succeeded or not. The handler
  is the three steps \<open>Click_delete\<close>, \<open>Settle_delete\<close>, \<open>Settle_blogs True\<close> of the
  component, and the last of them empties both in whatever state it runs.
\<close>

theorem delete_resets:
  "handleDelete i False del_r list_r s = s \<and>
   expandedBlogIds (handleDelete i True (Resolved ()) list_r s) = {} \<and>
   subblogs (handleDelete i True (Resolved ()) list_r s) = Map.empty \<and>
   requests (handleDelete i True (Resolved ()) list_r s)
     = requests s @ [Delete_blog [i], Get_blog (- 1)] \<and>
   run [Click_delete i True, Settle_delete (Resolved ()), Settle_blogs True list_r] s
     = Some (handleDelete i True (Resolved ()) list_r s) \<and>
   (step (Settle_blogs True list_r) s = Some t \<longrightarrow>
      expandedBlogIds t = {} \<and> subblogs t = Map.empty)"
  by (cases list_r) (auto simp: handler_defs Let_def split: if_splits)

theorem delete_resets_witness:
  "expandedBlogIds cached = {1} \<and> subblogs cached 1 = Some [workshop\<lparr> parentId := Some 1 \<rparr>] \<and>
   handleDelete 3 False (Resolved ()) (Resolved [zine, blog2]) cached = cached \<and>
   expandedBlogIds (handleDelete 3 True (Resolved ()) (Resolved [zine, blog2]) cached) = {} \<and>
   subblogs (handleDelete 3 True (Resolved ()) (Resolved [zine, blog2]) cached) 1 = None \<and>
   requests (handleDelete 3 True (Resolved ()) (Rejected ''Network Error'') cached)
     = [Get_blog (- 1), Get_blog 1, Delete_blog [3], Get_blog (- 1)] \<and>
   expandedBlogIds (handleDelete 3 True (Resolved ()) (Rejected ''Network Error'') cached) = {}"
  using delete_resets [of 3 "Resolved ()" "Resolved [zine, blog2]" cached]
    delete_resets [of 3 "Resolved ()" "Rejected ''Network Error''" cached]
  by (simp add: cached_facts)

text \<open>
  Claim C6: when the delete request fails, the error is logged with \<open>console.error\<close>
  and shown with \<open>alert\<close>, and the expanded ids, \<open>subblogs\<close>, the top-level list, the
  loading flags and the search box are what they were before the handler ran; the only
  request issued is the delete request itself (no list fetch). The same holds for the
  settling step alone, in whatever state it runs.
\<close>

theorem delete_failure_keeps_state:
  "console_error (handleDelete i True (Rejected e) list_r s)
     = console_error s @ [(''Error deleting blog:'', e)] \<and>
   alerts (handleDelete i True (Rejected e) list_r s) = alerts s @ [''Failed to delete blog''] \<and>
   expandedBlogIds (handleDelete i True (Rejected e) list_r s) = expandedBlogIds s \<and>
   subblogs (handleDelete i True (Rejected e) list_r s) = subblogs s \<and>
   blogs (handleDelete i True (Rejected e) list_r s) = blogs s \<and>
   loading (handleDelete i True (Rejected e) list_r s) = loading s \<and>
   searchQuery (handleDelete i True (Rejected e) list_r s) = searchQuery s \<and>
   requests (handleDelete i True (Rejected e) list_r s) = requests s @ [Delete_blog [i]] \<and>
   run [Click_delete i True, Settle_delete (Rejected e)] s
     = Some (handleDelete i True (Rejected e) list_r s) \<and>
   expandedBlogIds (handleDelete_deleted (Rejected e) s) = expandedBlogIds s \<and>
   subblogs (handleDelete_deleted (Rejected e) s) = subblogs s \<and>
   blogs (handleDelete_deleted (Rejected e) s) = blogs s \<and>
   requests (handleDelete_deleted (Rejected e) s) = requests s"
  by (simp add: handler_defs Let_def)

theorem delete_failure_keeps_state_witness:
  "run [Click_delete 3 True, Settle_delete (Rejected ''500'')] cached
     = Some (handleDelete 3 True (Rejected ''500'') (Resolved []) cached) \<and>
   expandedBlogIds (handleDelete 3 True (Rejected ''500'') (Resolved []) cached) = {1} \<and>
   subblogs (handleDelete 3 True (Rejected ''500'') (Resolved []) cached) 1
     = Some [workshop\<lparr> parentId := Some 1 \<rparr>] \<and>
   blogs (handleDelete 3 True (Rejected ''500'') (Resolved []) cached) = [zine, blog2] \<and>
   requests (handleDelete 3 True (Rejected ''500'') (Resolved []) cached)
     = [Get_blog (- 1), Get_blog 1, Delete_blog [3]] \<and>
   alerts (handleDelete 3 True (Rejected ''500'') (Resolved []) cached) = [''Failed to delete blog''] \<and>
   console_error (handleDelete 3 True (Rejected ''500'') (Resolved []) cached)
     = [(''Error deleting blog:'', ''500'')]"
  using delete_failure_keeps_state [of 3 "''500''" "Resolved []" cached]
  by (simp add: cached_facts)

subsection \<open>The search filter\<close>




subsection \<open>Child fetches that fail or come back empty\<close>

text \<open>
  Claim C7: when a node is expanded (it was collapsed and its loading flag was not
  true, so the fetch is issued) and that fetch fails, the node's id is among the
  expanded ids, \<open>subblogs\<close> is what it was before the expand, the error is logged, and
  the only request issued is that one fetch. The settling step alone, in whatever state
  it runs, leaves the expanded ids, \<open>subblogs\<close> and the issued requests as they are, logs
  the error and lowers the flag.
\<close>

theorem fetch_failure_keeps_expanded:
  "(blogID b \<notin> expandedBlogIds s \<and> loading s (blogID b) \<noteq> Some True \<longrightarrow>
      blogID b \<in> expandedBlogIds (fetchSubblogs_resume (blogID b) (Rejected e) (toggleExpand b s)) \<and>
      subblogs (fetchSubblogs_resume (blogID b) (Rejected e) (toggleExpand b s)) = subblogs s \<and>
      console_error (fetchSubblogs_resume (blogID b) (Rejected e) (toggleExpand b s))
        = console_error s @ [(''Error fetching subblogs:'', e)] \<and>
      requests (fetchSubblogs_resume (blogID b) (Rejected e) (toggleExpand b s))
        = requests s @ [Get_blog (blogID b)]) \<and>
   expandedBlogIds (fetchSubblogs_resume p (Rejected e) s) = expandedBlogIds s \<and>
   subblogs (fetchSubblogs_resume p (Rejected e) s) = subblogs s \<and>
   requests (fetchSubblogs_resume p (Rejected e) s) = requests s \<and>
   console_error (fetchSubblogs_resume p (Rejected e) s)
     = console_error s @ [(''Error fetching subblogs:'', e)] \<and>
   loading (fetchSubblogs_resume p (Rejected e) s) p = Some False"
  by (simp add: handler_defs Let_def)

theorem fetch_failure_keeps_expanded_witness:
  "blogID blog2 \<notin> expandedBlogIds cached \<and> loading cached (blogID blog2) \<noteq> Some True \<and>
   run [Click_toggle blog2, Settle_subblogs 2 (Rejected ''timeout'')] cached
     = Some (fetchSubblogs_resume (blogID blog2) (Rejected ''timeout'') (toggleExpand blog2 cached)) \<and>
   expandedBlogIds (fetchSubblogs_resume (blogID blog2) (Rejected ''timeout'') (toggleExpand blog2 cached))
     = {1, 2} \<and>
   subblogs (fetchSubblogs_resume (blogID blog2) (Rejected ''timeout'') (toggleExpand blog2 cached)) 2
     = None \<and>
   console_error (fetchSubblogs_resume (blogID blog2) (Rejected ''timeout'') (toggleExpand blog2 cached))
     = [(''Error fetching subblogs:'', ''timeout'')] \<and>
   requests (fetchSubblogs_resume (blogID blog2) (Rejected ''timeout'') (toggleExpand blog2 cached))
     = [Get_blog (- 1), Get_blog 1, Get_blog 2]"
proof -
  have h: "blogID blog2 \<notin> expandedBlogIds cached \<and> loading cached (blogID blog2) \<noteq> Some True"
    by (simp add: example_defs handler_defs)
  have r: "run [Click_toggle blog2, Settle_subblogs 2 (Rejected ''timeout'')] cached
     = Some (fetchSubblogs_resume (blogID blog2) (Rejected ''timeout'') (toggleExpand blog2 cached))"
    by (simp add: example_defs handler_defs)
  have c: "subblogs cached 2 = None" "blogID blog2 = 2"
    by (simp_all add: example_defs handler_defs)
  from fetch_failure_keeps_expanded [of blog2 cached "''timeout''" 2] h
  have "blogID blog2 \<in> expandedBlogIds
          (fetchSubblogs_resume (blogID blog2) (Rejected ''timeout'') (toggleExpand blog2 cached)) \<and>
      subblogs (fetchSubblogs_resume (blogID blog2) (Rejected ''timeout'') (toggleExpand blog2 cached))
        = subblogs cached \<and>
      console_error (fetchSubblogs_resume (blogID blog2) (Rejected ''timeout'') (toggleExpand blog2 cached))
        = console_error cached @ [(''Error fetching subblogs:'', ''timeout'')] \<and>
      requests (fetchSubblogs_resume (blogID blog2) (Rejected ''timeout'') (toggleExpand blog2 cached))
        = requests cached @ [Get_blog (blogID blog2)]"
    by blast
  moreover have "expandedBlogIds
      (fetchSubblogs_resume (blogID blog2) (Rejected ''timeout'') (toggleExpand blog2 cached)) = {1, 2}"
    by (auto simp: example_defs handler_defs)
  ultimately show ?thesis using h r c by (simp add: cached_facts)
qed

text \<open>
  Claim C9: when the child fetch of an expanded node returns the empty list, the node
  stays expanded, \<open>subblogs\<close> maps its id to the empty list, nothing is logged, and
  \<open>BlogRow\<close> returns for it: it renders the node's own row and no child row, at every
  level and with any nesting depth of at least one. \<open>BlogRow\<close> returns this single row in
  every state in which \<open>subblogs\<close> maps the node's id to the empty list.
\<close>

theorem empty_children_render:
  "(blogID b \<in> expandedBlogIds s \<longrightarrow>
      blogID b \<in> expandedBlogIds (fetchSubblogs_resume (blogID b) (Resolved []) s) \<and>
      subblogs (fetchSubblogs_resume (blogID b) (Resolved []) s) (blogID b) = Some [] \<and>
      console_error (fetchSubblogs_resume (blogID b) (Resolved []) s) = console_error s \<and>
      BlogRow (Suc n) (fetchSubblogs_resume (blogID b) (Resolved []) s) b level
        = Some [tr (fetchSubblogs_resume (blogID b) (Resolved []) s) b level]) \<and>
   (subblogs s (blogID b) = Some [] \<longrightarrow> BlogRow (Suc n) s b level = Some [tr s b level])"
  by (simp add: hasSubblogs_def handler_defs Let_def)

theorem empty_children_render_witness:
  "blogID zine \<in> expandedBlogIds cached \<and>
   run [Click_toggle zine, Click_toggle zine, Settle_subblogs 1 (Resolved [])] cached
     = Some (fetchSubblogs_resume (blogID zine) (Resolved [])
               (toggleExpand zine (toggleExpand zine cached))) \<and>
   BlogRow (Suc 0) cached zine 0 = None \<and>
   BlogRow (Suc 0) (fetchSubblogs_resume (blogID zine) (Resolved []) cached) zine 0
     = Some [\<lparr> row_padding = 0, row_icon = ChevronDown, row_disabled = False,
               row_title = utf16 ''Zine Robotics'',
               row_created = \<lparr> seconds = 1700000000, nanoseconds = 0 \<rparr>,
               row_featured = True, row_blog = zine \<rparr>]"
proof -
  have h: "blogID zine \<in> expandedBlogIds cached" by (simp add: cached_facts)
  have r: "run [Click_toggle zine, Click_toggle zine, Settle_subblogs 1 (Resolved [])] cached
     = Some (fetchSubblogs_resume (blogID zine) (Resolved [])
               (toggleExpand zine (toggleExpand zine cached)))"
    by (simp add: example_defs handler_defs)
  have n: "BlogRow (Suc 0) cached zine 0 = None"
    by (simp add: isExpanded_def hasSubblogs_def cached_facts)
  have t: "tr (fetchSubblogs_resume (blogID zine) (Resolved []) cached) zine 0
      = \<lparr> row_padding = 0, row_icon = ChevronDown, row_disabled = False,
               row_title = utf16 ''Zine Robotics'',
               row_created = \<lparr> seconds = 1700000000, nanoseconds = 0 \<rparr>,
               row_featured = True, row_blog = zine \<rparr>"
    by (simp add: tr_def isExpanded_def example_defs handler_defs js_includes_examples)
  from empty_children_render [of zine cached 0 0] h r n t show ?thesis by simp
qed

subsection \<open>Invariants of the mounted component\<close>

text \<open>
  Claim C8: in every state the mounted component can reach, the loading flag of an id
  is true exactly while a child fetch for that id has started and not settled; when
  that fetch settles, by success or by failure, the flag is false and no child fetch
  for the id is left in flight.
\<close>

theorem loading_only_while_fetching:
  assumes "run evs mounted = Some s"
  shows "(loading s i = Some True \<longleftrightarrow> Await_subblogs i \<in> set (pending s)) \<and>
         (\<forall>r t. step (Settle_subblogs i r) s = Some t \<longrightarrow>
            loading t i = Some False \<and> Await_subblogs i \<notin> set (pending t)) \<and>
         (\<forall>r. loading (fetchSubblogs_resume i r s) i = Some False)"
proof -
  from assms have inv: "in_flight s i = (if loading s i = Some True then 1 else 0)"
    by (rule reachable_in_flight)
  have mem: "Await_subblogs i \<in> set (pending s) \<longleftrightarrow> in_flight s i \<noteq> 0"
    by (simp add: in_flight_def count_list_0_iff)
  from inv mem have one: "loading s i = Some True \<longleftrightarrow> Await_subblogs i \<in> set (pending s)"
    by simp
  have three: "\<forall>r. loading (fetchSubblogs_resume i r s) i = Some False"
    by (simp add: handler_defs Let_def)
  have two: "\<forall>r t. step (Settle_subblogs i r) s = Some t \<longrightarrow>
            loading t i = Some False \<and> Await_subblogs i \<notin> set (pending t)"
  proof (intro allI impI)
    fix r t
    assume st: "step (Settle_subblogs i r) s = Some t"
    then have "run (evs @ [Settle_subblogs i r]) mounted = Some t"
      using assms by (simp add: run_append)
    then have "in_flight t i = (if loading t i = Some True then 1 else 0)"
      by (rule reachable_in_flight)
    moreover from st have "loading t i = Some False"
      by (auto simp: handler_defs Let_def split: if_splits)
    ultimately show "loading t i = Some False \<and> Await_subblogs i \<notin> set (pending t)"
      by (simp add: in_flight_def count_list_0_iff)
  qed
  from one two three show ?thesis by blast
qed

theorem loading_only_while_fetching_witness:
  "run [Click_toggle zine] mounted = Some (toggleExpand zine mounted) \<and>
   loading mounted 1 = None \<and> Await_subblogs 1 \<notin> set (pending mounted) \<and>
   loading (toggleExpand zine mounted) 1 = Some True \<and>
   Await_subblogs 1 \<in> set (pending (toggleExpand zine mounted)) \<and>
   step (Settle_subblogs 1 (Rejected ''timeout'')) (toggleExpand zine mounted)
     = Some (fetchSubblogs_resume 1 (Rejected ''timeout'') (toggleExpand zine mounted)) \<and>
   loading (fetchSubblogs_resume 1 (Rejected ''timeout'') (toggleExpand zine mounted)) 1
     = Some False \<and>
   loading (fetchSubblogs_resume 1 (Resolved [workshop]) (toggleExpand zine mounted)) 1
     = Some False \<and>
   Await_subblogs 1
     \<notin> set (pending (fetchSubblogs_resume 1 (Rejected ''timeout'') (toggleExpand zine mounted)))"
proof -
  have r: "run [Click_toggle zine] mounted = Some (toggleExpand zine mounted)" by simp
  have p: "Await_subblogs 1 \<in> set (pending (toggleExpand zine mounted))"
    by (simp add: example_defs handler_defs)
  have st: "step (Settle_subblogs 1 (Rejected ''timeout'')) (toggleExpand zine mounted)
     = Some (fetchSubblogs_resume 1 (Rejected ''timeout'') (toggleExpand zine mounted))"
    using p by simp
  have m: "loading mounted 1 = None \<and> Await_subblogs 1 \<notin> set (pending mounted)"
    by (simp add: example_defs handler_defs)
  from loading_only_while_fetching [OF r, of 1] r p st m show ?thesis by blast
qed

text \<open>
  Claim C10: in every state the mounted component can reach, every blog stored in
  \<open>subblogs\<close> under a key \<open>p\<close> has \<open>parentId = p\<close>: the merge in \<open>fetchSubblogs\<close> overwrites
  the \<open>parentId\<close> of each fetched child with the key it was fetched under.
\<close>

theorem cached_children_point_to_key:
  assumes "run evs mounted = Some s" and "subblogs s p = Some cs" and "c \<in> set cs"
  shows "parentId c = Some p"
  using reachable_parent [OF assms(1)] assms(2,3) by blast

theorem cached_children_point_to_key_witness:
  "run [Settle_blogs False (Resolved [zine, blog2]), Click_toggle zine,
        Settle_subblogs 1 (Resolved [workshop])] mounted = Some cached \<and>
   subblogs cached 1 = Some [workshop\<lparr> parentId := Some 1 \<rparr>] \<and>
   workshop\<lparr> parentId := Some 1 \<rparr> \<in> set [workshop\<lparr> parentId := Some 1 \<rparr>] \<and>
   parentId workshop = None \<and>
   parentId (workshop\<lparr> parentId := Some 1 \<rparr>) = Some 1"
proof -
  have c: "subblogs cached 1 = Some [workshop\<lparr> parentId := Some 1 \<rparr>]" by (simp add: cached_facts)
  have m: "workshop\<lparr> parentId := Some 1 \<rparr> \<in> set [workshop\<lparr> parentId := Some 1 \<rparr>]" by simp
  have w: "parentId workshop = None" by (simp add: workshop_def)
  from cached_children_point_to_key [OF run_cached c m] run_cached c m w show ?thesis by blast
qed

end
